theory Spec2Isabelle
  imports Complex_Main "HOL-Library.Option_ord"
begin

section \<open>Data of the monitor script\<close>

text \<open>
  The script \<^verbatim>\<open>check-mps-price-telegram.py\<close> keeps four variables across the iterations
  of its \<^verbatim>\<open>while True\<close> loop: \<^verbatim>\<open>lower_limit\<close>, \<^verbatim>\<open>upper_limit\<close>, \<^verbatim>\<open>alert_sent\<close> and
  \<^verbatim>\<open>last_update_id\<close>. Everything else it does is a call to the outside: a Telegram
  \<^verbatim>\<open>sendMessage\<close>, a Telegram \<^verbatim>\<open>getUpdates\<close>, a router \<^verbatim>\<open>getAmountsOut\<close>. The model
  passes the four variables in a record and appends every outside call to a list kept
  in the same record, in the order the calls are made.

  Python floats are values of a type \<open>'f\<close>; the correctly rounded conversion of an exact
  rational into a float is a parameter \<open>rnd\<close> of the functions that build floats
  (\<^verbatim>\<open>float(str)\<close> and the true division \<^verbatim>\<open>wxdai_raw / 10**18\<close> both round the exact value to
  the nearest double). No NaN can arise in the script, so the comparisons \<^verbatim>\<open><\<close> and \<^verbatim>\<open>>\<close>
  are those of a linear order.
\<close>

datatype error = ValueError

text \<open>
  A Telegram update is a dict; the script looks at the keys \<^verbatim>\<open>update_id\<close> and
  \<^verbatim>\<open>message\<close>, and at the key \<^verbatim>\<open>text\<close> of the message. A key that is absent is \<open>None\<close>.
  The text is a Python \<^verbatim>\<open>str\<close>; the model covers texts whose code points are below 256,
  one \<^typ>\<open>char\<close> for each code point.
\<close>

record message =
  msg_text :: "string option"

record update =
  update_id :: "int option"
  message :: "message option"

text \<open>The texts handed to \<^verbatim>\<open>send_telegram_text\<close>: the start message, the confirmation
  \<^verbatim>\<open>Limits updated: Lower limit = ... Upper limit = ...\<close> and the alert
  \<^verbatim>\<open>ALERT! MPS token out of limits: ...\<close>, each with the floats it prints.\<close>

datatype 'f outbound = StartMessage | LimitsUpdated 'f 'f | Alert 'f

datatype 'f effect = SendText "'f outbound" | GetUpdates "int option" | GetAmountsOut

record 'f state =
  lower_limit :: "'f option"
  upper_limit :: "'f option"
  alert_sent :: bool
  last_update_id :: "int option"
  effects :: "'f effect list"

text \<open>What the outside answers. \<^verbatim>\<open>requests.get\<close>, \<^verbatim>\<open>raise_for_status\<close> and \<^verbatim>\<open>json\<close> either raise
  a \<^verbatim>\<open>RequestException\<close> or give the decoded dict, whose \<^verbatim>\<open>result\<close> entry may be absent. The
  router call either raises or gives the list \<^verbatim>\<open>amounts_out\<close>.\<close>

datatype poll_reply = RequestException | JsonData "update list option"

datatype quote_reply = CallFailed | AmountsOut "nat list"

section \<open>Helper functions\<close>

definition send_telegram_text :: "'f outbound \<Rightarrow> 'f state \<Rightarrow> 'f state" where
  \<comment> \<open>The request is made once; a \<^verbatim>\<open>RequestException\<close> is caught and printed.\<close>
  "send_telegram_text txt s = s\<lparr>effects := effects s @ [SendText txt]\<rparr>"

definition send_telegram_alert :: "'f \<Rightarrow> 'f state \<Rightarrow> 'f state" where
  "send_telegram_alert price s = send_telegram_text (Alert price) s"

definition get_token_price :: "(rat \<Rightarrow> 'f) \<Rightarrow> quote_reply \<Rightarrow> 'f state \<Rightarrow> 'f option \<times> 'f state" where
  \<comment> \<open>\<^verbatim>\<open>except Exception\<close> catches the failed call and the \<^verbatim>\<open>IndexError\<close> of
      \<^verbatim>\<open>amounts_out[-1]\<close> on an empty list alike.\<close>
  "get_token_price rnd reply s =
     (let s' = s\<lparr>effects := effects s @ [GetAmountsOut]\<rparr>
      in case reply of
           CallFailed \<Rightarrow> (None, s')
         | AmountsOut amounts_out \<Rightarrow>
             (case amounts_out of
                [] \<Rightarrow> (None, s')
              | _ # _ \<Rightarrow> (Some (rnd (of_nat (last amounts_out) / 10 ^ 18)), s')))"

definition get_telegram_updates :: "int option \<Rightarrow> poll_reply \<Rightarrow> 'f state \<Rightarrow> update list \<times> 'f state" where
  "get_telegram_updates offset reply s =
     (let s' = s\<lparr>effects := effects s @ [GetUpdates offset]\<rparr>
      in case reply of
           RequestException \<Rightarrow> ([], s')
         | JsonData None \<Rightarrow> ([], s')
         | JsonData (Some result) \<Rightarrow> (result, s'))"

section \<open>The command text\<close>

text \<open>\<^verbatim>\<open>str.isspace\<close> and the regex class \<^verbatim>\<open>\s\<close> on code points below 256: 9 to 13, 28 to 32,
  133 and 160. \<^verbatim>\<open>\d\<close> below 256: the ten ASCII digits.\<close>

definition is_space :: "char \<Rightarrow> bool" where
  "is_space c =
     (let n = (of_char c :: nat)
      in (9 \<le> n \<and> n \<le> 13) \<or> (28 \<le> n \<and> n \<le> 32) \<or> n = 133 \<or> n = 160)"

definition is_digit :: "char \<Rightarrow> bool" where
  "is_digit c = (let n = (of_char c :: nat) in 48 \<le> n \<and> n \<le> 57)"

definition digit_or_dot :: "char \<Rightarrow> bool" where
  \<comment> \<open>the class \<^verbatim>\<open>[\d\.]\<close>\<close>
  "digit_or_dot c = (is_digit c \<or> c = CHR ''.'')"

definition strip :: "string \<Rightarrow> string" where
  "strip t = rev (dropWhile is_space (rev (dropWhile is_space t)))"

fun strip_prefix :: "string \<Rightarrow> string \<Rightarrow> string option" where
  "strip_prefix [] t = Some t"
| "strip_prefix (p # ps) [] = None"
| "strip_prefix (p # ps) (c # cs) = (if p = c then strip_prefix ps cs else None)"

definition re_match :: "string \<Rightarrow> (string \<times> string) option" where
  \<comment> \<open>\<^verbatim>\<open>re.match(r"^monitor-mps\s+([\d\.]+)\s+([\d\.]+)$", text)\<close>, giving the two groups.
      The classes \<^verbatim>\<open>\s\<close> and \<^verbatim>\<open>[\d\.]\<close> are disjoint, so each \<^verbatim>\<open>+\<close> takes the longest run and
      no shorter choice can match; \<^verbatim>\<open>$\<close> is the end of the text or the place before a
      final newline.\<close>
  "re_match t =
     (case strip_prefix ''monitor-mps'' t of
        None \<Rightarrow> None
      | Some r0 \<Rightarrow>
          (let ws1 = takeWhile is_space r0; r1 = dropWhile is_space r0;
               g1 = takeWhile digit_or_dot r1; r2 = dropWhile digit_or_dot r1;
               ws2 = takeWhile is_space r2; r3 = dropWhile is_space r2;
               g2 = takeWhile digit_or_dot r3; r4 = dropWhile digit_or_dot r3
           in if ws1 \<noteq> [] \<and> g1 \<noteq> [] \<and> ws2 \<noteq> [] \<and> g2 \<noteq> []
                 \<and> (r4 = [] \<or> r4 = [CHR 0x0A])
              then Some (g1, g2) else None))"

definition digit_val :: "char \<Rightarrow> nat" where
  "digit_val c = of_char c - 48"

definition digits_val :: "string \<Rightarrow> nat" where
  "digits_val ds = foldl (\<lambda>n c. 10 * n + digit_val c) 0 ds"

definition float_of_capture :: "string \<Rightarrow> error + rat" where
  \<comment> \<open>\<^verbatim>\<open>float(g)\<close> for a group \<open>g\<close> of the regex, a non-empty text of digits and dots, before
      rounding: digits with at most one dot and at least one digit denote their decimal
      value (\<^verbatim>\<open>"1"\<close>, \<^verbatim>\<open>"1."\<close>, \<^verbatim>\<open>".5"\<close>, \<^verbatim>\<open>"1.5"\<close>), anything else (\<^verbatim>\<open>"."\<close>, \<^verbatim>\<open>"1.2.3"\<close>) raises
      \<^verbatim>\<open>ValueError\<close>. Signs, exponents, blanks, underscores and the words \<^verbatim>\<open>inf\<close> and \<^verbatim>\<open>nan\<close>,
      which \<^verbatim>\<open>float\<close> reads as well, cannot occur in a group and are not modelled.\<close>
  "float_of_capture g =
     (let ip = takeWhile is_digit g; rest = dropWhile is_digit g
      in case rest of
           [] \<Rightarrow> (if ip = [] then Inl ValueError else Inr (of_nat (digits_val ip)))
         | c # fp \<Rightarrow>
             (if c = CHR ''.'' \<and> list_all is_digit fp \<and> ip @ fp \<noteq> []
              then Inr (of_nat (digits_val (ip @ fp)) / 10 ^ length fp)
              else Inl ValueError))"

section \<open>The main loop\<close>

definition apply_message :: "(rat \<Rightarrow> 'f) \<Rightarrow> update \<Rightarrow> 'f state \<Rightarrow> error + 'f state" where
  \<comment> \<open>Lines 168 to 184: the text is stripped and matched; on a match both groups go
      through \<^verbatim>\<open>float\<close>, whose \<^verbatim>\<open>ValueError\<close> nothing catches, and only then are the three
      variables assigned and the confirmation sent.\<close>
  "apply_message rnd upd s =
     (case message upd of
        None \<Rightarrow> Inr s
      | Some m \<Rightarrow>
          (case msg_text m of
             None \<Rightarrow> Inr s
           | Some raw \<Rightarrow>
               (case re_match (strip raw) of
                  None \<Rightarrow> Inr s
                | Some (g1, g2) \<Rightarrow>
                    (case float_of_capture g1 of
                       Inl e \<Rightarrow> Inl e
                     | Inr v1 \<Rightarrow>
                         (case float_of_capture g2 of
                            Inl e \<Rightarrow> Inl e
                          | Inr v2 \<Rightarrow>
                              (let new_lower = rnd v1; new_upper = rnd v2
                               in Inr (send_telegram_text (LimitsUpdated new_lower new_upper)
                                    (s\<lparr>lower_limit := Some new_lower,
                                       upper_limit := Some new_upper,
                                       alert_sent := False\<rparr>))))))))"

definition process_update :: "(rat \<Rightarrow> 'f) \<Rightarrow> update \<Rightarrow> 'f state \<Rightarrow> error + 'f state" where
  \<comment> \<open>The body of \<^verbatim>\<open>for upd in updates\<close>: everything, the advance of \<^verbatim>\<open>last_update_id\<close>
      included, is under \<^verbatim>\<open>if 'update_id' in upd\<close>.\<close>
  "process_update rnd upd s =
     (case update_id upd of
        None \<Rightarrow> Inr s
      | Some current_update_id \<Rightarrow>
          (case apply_message rnd upd s of
             Inl e \<Rightarrow> Inl e
           | Inr s' \<Rightarrow> Inr (s'\<lparr>last_update_id := Some (current_update_id + 1)\<rparr>)))"

fun process_updates :: "(rat \<Rightarrow> 'f) \<Rightarrow> update list \<Rightarrow> 'f state \<Rightarrow> error + 'f state" where
  "process_updates rnd [] s = Inr s"
| "process_updates rnd (upd # updates) s =
     (case process_update rnd upd s of
        Inl e \<Rightarrow> Inl e
      | Inr s' \<Rightarrow> process_updates rnd updates s')"

definition evaluate :: "'f::ord \<Rightarrow> 'f \<Rightarrow> 'f \<Rightarrow> 'f state \<Rightarrow> 'f state" where
  \<comment> \<open>Lines 199 to 209, with the two limits the guard of line 193 has found present.\<close>
  "evaluate price lower upper s =
     (if price < lower \<or> price > upper
      then (if \<not> alert_sent s
            then (send_telegram_alert price s)\<lparr>alert_sent := True\<rparr>
            else s)
      else s\<lparr>alert_sent := False\<rparr>)"

definition check_price :: "(rat \<Rightarrow> 'f::ord) \<Rightarrow> quote_reply \<Rightarrow> 'f state \<Rightarrow> 'f state" where
  "check_price rnd reply s =
     (case lower_limit s of
        None \<Rightarrow> s
      | Some lower \<Rightarrow>
          (case upper_limit s of
             None \<Rightarrow> s
           | Some upper \<Rightarrow>
               (case get_token_price rnd reply s of
                  (None, s') \<Rightarrow> s'
                | (Some price, s') \<Rightarrow> evaluate price lower upper s')))"

definition iteration :: "(rat \<Rightarrow> 'f::ord) \<Rightarrow> poll_reply \<times> quote_reply \<Rightarrow> 'f state \<Rightarrow> error + 'f state" where
  \<comment> \<open>One turn of \<^verbatim>\<open>while True\<close>, with the answers the outside gives in that turn. The two
      \<^verbatim>\<open>time.sleep\<close> calls change nothing of the state.\<close>
  "iteration rnd replies s =
     (case get_telegram_updates (last_update_id s) (fst replies) s of
        (updates, s0) \<Rightarrow>
          (case process_updates rnd updates s0 of
             Inl e \<Rightarrow> Inl e
           | Inr s1 \<Rightarrow> Inr (check_price rnd (snd replies) s1)))"

fun run :: "(rat \<Rightarrow> 'f::ord) \<Rightarrow> (poll_reply \<times> quote_reply) list \<Rightarrow> 'f state \<Rightarrow> error + 'f state" where
  \<comment> \<open>The first turns of the loop; an error no handler catches ends the process.\<close>
  "run rnd [] s = Inr s"
| "run rnd (replies # rest) s =
     (case iteration rnd replies s of
        Inl e \<Rightarrow> Inl e
      | Inr s' \<Rightarrow> run rnd rest s')"

definition main_start :: "'f state" where
  \<comment> \<open>Lines 139 to 156: the variables before the loop, the start message sent.\<close>
  "main_start =
     send_telegram_text StartMessage
       \<lparr>lower_limit = None, upper_limit = None, alert_sent = False,
        last_update_id = None, effects = []\<rparr>"

section \<open>The monitor's states\<close>

datatype alert_state = Unconfigured | Armed | Alerting

definition monitor_state :: "'f state \<Rightarrow> alert_state" where
  \<comment> \<open>Configured is the test of line 193; alerting is the flag \<^verbatim>\<open>alert_sent\<close>.\<close>
  "monitor_state s =
     (if lower_limit s \<noteq> None \<and> upper_limit s \<noteq> None
      then (if alert_sent s then Alerting else Armed)
      else Unconfigured)"

definition alerts_sent :: "'f state \<Rightarrow> nat" where
  "alerts_sent s = length (filter (\<lambda>e. case e of SendText (Alert _) \<Rightarrow> True | _ \<Rightarrow> False) (effects s))"

definition limits_paired :: "'f state \<Rightarrow> bool" where
  \<comment> \<open>both limits unset or both set\<close>
  "limits_paired s = ((lower_limit s = None) = (upper_limit s = None))"

definition price_effects :: "'f state \<Rightarrow> 'f effect list" where
  \<comment> \<open>the router calls and the alerts among the calls made so far\<close>
  "price_effects s =
     filter (\<lambda>e. case e of SendText (Alert _) \<Rightarrow> True | GetAmountsOut \<Rightarrow> True | _ \<Rightarrow> False)
       (effects s)"

fun evaluate_prices :: "'f::ord list \<Rightarrow> 'f \<Rightarrow> 'f \<Rightarrow> 'f state \<Rightarrow> 'f state" where
  \<comment> \<open>successive price checks under the same two limits\<close>
  "evaluate_prices [] lower upper s = s"
| "evaluate_prices (price # prices) lower upper s =
     evaluate_prices prices lower upper (evaluate price lower upper s)"

fun armed_to_alerting :: "'f::ord list \<Rightarrow> 'f \<Rightarrow> 'f \<Rightarrow> 'f state \<Rightarrow> nat" where
  \<comment> \<open>how many of those checks take the monitor from Armed to Alerting\<close>
  "armed_to_alerting [] lower upper s = 0"
| "armed_to_alerting (price # prices) lower upper s =
     (if monitor_state s = Armed \<and> monitor_state (evaluate price lower upper s) = Alerting
      then 1 else 0)
     + armed_to_alerting prices lower upper (evaluate price lower upper s)"

definition batch_ids :: "update list \<Rightarrow> int list" where
  \<comment> \<open>the identifiers carried by the updates of a batch, in the order delivered\<close>
  "batch_ids batch = List.map_filter update_id batch"

section \<open>The transport's side of the cursor\<close>

text \<open>The docstring of \<^verbatim>\<open>get_telegram_updates\<close> states what the script relies on: Telegram
  returns only updates with \<^verbatim>\<open>update_id >= offset\<close>, and it returns them in ascending order.
  An absent offset is \<open>None\<close>, below every identifier.\<close>

definition honours_offset :: "int option \<Rightarrow> update list \<Rightarrow> bool" where
  "honours_offset offset batch =
     (sorted_wrt (<) (batch_ids batch) \<and> list_all (\<lambda>i. offset \<le> Some i) (batch_ids batch))"

fun transport_honest :: "(rat \<Rightarrow> 'f::ord) \<Rightarrow> (poll_reply \<times> quote_reply) list \<Rightarrow> 'f state \<Rightarrow> bool" where
  \<comment> \<open>every poll of the run is answered with a batch that honours its offset\<close>
  "transport_honest rnd [] s = True"
| "transport_honest rnd (replies # rest) s =
     (honours_offset (last_update_id s)
        (fst (get_telegram_updates (last_update_id s) (fst replies) s))
      \<and> (case iteration rnd replies s of
            Inl e \<Rightarrow> True
          | Inr s' \<Rightarrow> transport_honest rnd rest s'))"

fun processed_ids :: "(rat \<Rightarrow> 'f::ord) \<Rightarrow> (poll_reply \<times> quote_reply) list \<Rightarrow> 'f state \<Rightarrow> int list" where
  \<comment> \<open>the identifiers of the updates the loop body handles during the run, in order\<close>
  "processed_ids rnd [] s = []"
| "processed_ids rnd (replies # rest) s =
     batch_ids (fst (get_telegram_updates (last_update_id s) (fst replies) s))
     @ (case iteration rnd replies s of
          Inl e \<Rightarrow> []
        | Inr s' \<Rightarrow> processed_ids rnd rest s')"

section \<open>Concrete inputs\<close>

text \<open>States and updates on which the theorems below are evaluated, with floats read as
  the rationals they denote.\<close>

definition armed_example :: "rat state" where
  "armed_example =
     \<lparr>lower_limit = Some (1 / 2), upper_limit = Some 2, alert_sent = False,
      last_update_id = Some 6, effects = []\<rparr>"

definition inverted_example :: "rat state" where
  "inverted_example =
     \<lparr>lower_limit = Some 2, upper_limit = Some 1, alert_sent = False,
      last_update_id = Some 6, effects = []\<rparr>"

definition scenario_command :: update where
  "scenario_command =
     \<lparr>update_id = Some 5, message = Some \<lparr>msg_text = Some ''monitor-mps 0.5 2.0''\<rparr>\<rparr>"

definition scenario_chatter :: update where
  "scenario_chatter =
     \<lparr>update_id = Some 6, message = Some \<lparr>msg_text = Some ''monitor-mps abc def''\<rparr>\<rparr>"

definition alerting_example :: "rat state" where
  "alerting_example =
     \<lparr>lower_limit = Some 1, upper_limit = Some 3, alert_sent = True,
      last_update_id = Some 5, effects = [SendText (Alert (2 / 5))]\<rparr>"

definition stale_update :: update where
  "stale_update = \<lparr>update_id = Some 3, message = Some \<lparr>msg_text = Some ''monitor-mps 1 2''\<rparr>\<rparr>"

definition malformed_command :: update where
  "malformed_command =
     \<lparr>update_id = Some 5, message = Some \<lparr>msg_text = Some ''monitor-mps 1.2.3 4''\<rparr>\<rparr>"

section \<open>Unfolding the model on concrete inputs\<close>

lemmas text_defs = strip_def re_match_def is_space_def digit_or_dot_def float_of_capture_def
  is_digit_def digits_val_def digit_val_def

lemmas loop_defs = iteration_def get_telegram_updates_def process_update_def apply_message_def
  check_price_def get_token_price_def evaluate_def send_telegram_alert_def send_telegram_text_def
  main_start_def Let_def

lemmas eval_defs = evaluate_def send_telegram_alert_def send_telegram_text_def monitor_state_def
  alerts_sent_def

section \<open>What one update can change\<close>

lemma apply_message_cases:
  assumes "apply_message rnd upd s = Inr s'"
  shows "s' = s \<or> (\<exists>l u. s' = s\<lparr>lower_limit := Some l, upper_limit := Some u, alert_sent := False,
                         effects := effects s @ [SendText (LimitsUpdated l u)]\<rparr>)"
  using assms
  by (auto simp: apply_message_def send_telegram_text_def Let_def
           split: option.splits sum.splits prod.splits)

lemma process_update_cases:
  assumes "process_update rnd upd s = Inr s'"
  shows "(\<exists>c. s' = s\<lparr>last_update_id := c\<rparr>)
       \<or> (\<exists>l u c. s' = s\<lparr>lower_limit := Some l, upper_limit := Some u, alert_sent := False,
                         last_update_id := c,
                         effects := effects s @ [SendText (LimitsUpdated l u)]\<rparr>)"
proof (cases "update_id upd")
  case None
  with assms have "s' = s" by (simp add: process_update_def)
  then have "s' = s\<lparr>last_update_id := last_update_id s\<rparr>" by simp
  then show ?thesis by blast
next
  case (Some c)
  with assms obtain s1 where a: "apply_message rnd upd s = Inr s1"
    and s': "s' = s1\<lparr>last_update_id := Some (c + 1)\<rparr>"
    by (auto simp: process_update_def split: sum.splits)
  from apply_message_cases [OF a] show ?thesis
  proof
    assume "s1 = s" with s' show ?thesis by blast
  next
    assume "\<exists>l u. s1 = s\<lparr>lower_limit := Some l, upper_limit := Some u, alert_sent := False,
                         effects := effects s @ [SendText (LimitsUpdated l u)]\<rparr>"
    then obtain l u where "s1 = s\<lparr>lower_limit := Some l, upper_limit := Some u, alert_sent := False,
                         effects := effects s @ [SendText (LimitsUpdated l u)]\<rparr>" by blast
    with s' have "s' = s\<lparr>lower_limit := Some l, upper_limit := Some u, alert_sent := False,
                         last_update_id := Some (c + 1),
                         effects := effects s @ [SendText (LimitsUpdated l u)]\<rparr>" by simp
    then show ?thesis by blast
  qed
qed

lemma check_price_limits:
  "lower_limit (check_price rnd q s) = lower_limit s \<and> upper_limit (check_price rnd q s) = upper_limit s"
  by (auto simp: check_price_def get_token_price_def evaluate_def send_telegram_alert_def
        send_telegram_text_def Let_def split: option.splits quote_reply.splits list.splits)

lemma get_telegram_updates_limits:
  "lower_limit (snd (get_telegram_updates off p s)) = lower_limit s
   \<and> upper_limit (snd (get_telegram_updates off p s)) = upper_limit s"
  by (auto simp: get_telegram_updates_def Let_def split: poll_reply.splits option.splits)

section \<open>The two limits are set together\<close>

lemma process_update_paired:
  "process_update rnd upd s = Inr s' \<Longrightarrow> limits_paired s \<Longrightarrow> limits_paired s'"
  by (drule process_update_cases) (auto simp: limits_paired_def)

lemma process_updates_paired:
  "process_updates rnd upds s = Inr s' \<Longrightarrow> limits_paired s \<Longrightarrow> limits_paired s'"
  by (induction upds arbitrary: s) (auto split: sum.splits dest: process_update_paired)

lemma iteration_paired:
  assumes "iteration rnd replies s = Inr s'" "limits_paired s"
  shows "limits_paired s'"
proof -
  obtain upds s0 where g: "get_telegram_updates (last_update_id s) (fst replies) s = (upds, s0)"
    by (cases "get_telegram_updates (last_update_id s) (fst replies) s")
  with assms(1) obtain s1 where p: "process_updates rnd upds s0 = Inr s1"
    and s': "s' = check_price rnd (snd replies) s1"
    by (auto simp: iteration_def split: sum.splits)
  from g get_telegram_updates_limits [of "last_update_id s" "fst replies" s] assms(2)
  have "limits_paired s0" by (simp add: limits_paired_def)
  with p have "limits_paired s1" by (rule process_updates_paired)
  with s' show ?thesis using check_price_limits [of rnd "snd replies" s1]
    by (simp add: limits_paired_def)
qed

lemma run_paired:
  "run rnd replies s = Inr s' \<Longrightarrow> limits_paired s \<Longrightarrow> limits_paired s'"
  by (induction replies arbitrary: s) (auto split: sum.splits dest: iteration_paired)

text \<open>
  C9. In every state the loop reaches from its start, and in the state the test of
  line 193 reads (after the updates of the turn have been processed), the two limits
  are both unset or both set: they start unset, and a command sets both in one step.
\<close>

theorem limits_set_together:
  assumes "run rnd replies main_start = Inr (s :: 'f::ord state)"
    and "process_updates rnd updates (snd (get_telegram_updates (last_update_id s) p s)) = Inr s1"
  shows "limits_paired (main_start :: 'f::ord state) \<and> limits_paired s \<and> limits_paired s1"
proof -
  have i: "limits_paired (main_start :: 'f state)"
    by (simp add: limits_paired_def main_start_def send_telegram_text_def)
  with assms(1) have s: "limits_paired s" by (rule run_paired)
  then have "limits_paired (snd (get_telegram_updates (last_update_id s) p s))"
    using get_telegram_updates_limits [of "last_update_id s" p s] by (simp add: limits_paired_def)
  with assms(2) have "limits_paired s1" by (rule process_updates_paired)
  with i s show ?thesis by simp
qed

theorem limits_set_together_witness:
  "run (\<lambda>q::rat. q)
       [(JsonData (Some [scenario_command, scenario_chatter]), AmountsOut [1, 4 * 10 ^ 17])] main_start
     = Inr \<lparr>lower_limit = Some (1 / 2), upper_limit = Some 2, alert_sent = True,
            last_update_id = Some 7,
            effects = [SendText StartMessage, GetUpdates None, SendText (LimitsUpdated (1 / 2) 2),
                       GetAmountsOut, SendText (Alert (2 / 5))]\<rparr>
   \<and> limits_paired (main_start :: rat state)
   \<and> limits_paired \<lparr>lower_limit = Some (1 / 2 :: rat), upper_limit = Some 2, alert_sent = True,
            last_update_id = Some 7,
            effects = [SendText StartMessage, GetUpdates None, SendText (LimitsUpdated (1 / 2) 2),
                       GetAmountsOut, SendText (Alert (2 / 5))]\<rparr>
   \<and> process_updates (\<lambda>q::rat. q) [scenario_chatter]
        (snd (get_telegram_updates (Some 7) (JsonData None)
           \<lparr>lower_limit = Some (1 / 2), upper_limit = Some 2, alert_sent = True,
            last_update_id = Some 7,
            effects = [SendText StartMessage, GetUpdates None, SendText (LimitsUpdated (1 / 2) 2),
                       GetAmountsOut, SendText (Alert (2 / 5))]\<rparr>))
     = Inr \<lparr>lower_limit = Some (1 / 2), upper_limit = Some 2, alert_sent = True,
            last_update_id = Some 7,
            effects = [SendText StartMessage, GetUpdates None, SendText (LimitsUpdated (1 / 2) 2),
                       GetAmountsOut, SendText (Alert (2 / 5)), GetUpdates (Some 7)]\<rparr>
   \<and> limits_paired \<lparr>lower_limit = Some (1 / 2 :: rat), upper_limit = Some 2, alert_sent = True,
            last_update_id = Some 7,
            effects = [SendText StartMessage, GetUpdates None, SendText (LimitsUpdated (1 / 2) 2),
                       GetAmountsOut, SendText (Alert (2 / 5)), GetUpdates (Some 7)]\<rparr>"
proof -
  let ?S = "\<lparr>lower_limit = Some (1 / 2 :: rat), upper_limit = Some 2, alert_sent = True,
            last_update_id = Some 7,
            effects = [SendText StartMessage, GetUpdates None, SendText (LimitsUpdated (1 / 2) 2),
                       GetAmountsOut, SendText (Alert (2 / 5))]\<rparr>"
  have r: "run (\<lambda>q::rat. q)
       [(JsonData (Some [scenario_command, scenario_chatter]), AmountsOut [1, 4 * 10 ^ 17])] main_start
     = Inr ?S"
    by (simp add: scenario_command_def scenario_chatter_def loop_defs text_defs)
  have p: "process_updates (\<lambda>q::rat. q) [scenario_chatter]
        (snd (get_telegram_updates (last_update_id ?S) (JsonData None) ?S))
     = Inr (?S\<lparr>effects := effects ?S @ [GetUpdates (Some 7)]\<rparr>)"
    by (simp add: scenario_chatter_def loop_defs text_defs)
  from limits_set_together [OF r p] r p show ?thesis by simp
qed

section \<open>One alert for each breach\<close>

lemma evaluate_limits:
  "lower_limit (evaluate p l u s) = lower_limit s \<and> upper_limit (evaluate p l u s) = upper_limit s"
  by (simp add: evaluate_def send_telegram_alert_def send_telegram_text_def)

lemma evaluate_prices_limits:
  "lower_limit (evaluate_prices ps l u s) = lower_limit s
   \<and> upper_limit (evaluate_prices ps l u s) = upper_limit s"
  by (induction ps arbitrary: s) (simp_all add: evaluate_limits)

lemma alerts_sent_evaluate:
  "alerts_sent (evaluate p l u s) =
     alerts_sent s + (if \<not> alert_sent s \<and> alert_sent (evaluate p l u s) then 1 else 0)"
  by (simp add: evaluate_def alerts_sent_def send_telegram_alert_def send_telegram_text_def)

lemma configured_state:
  "lower_limit s = Some l \<Longrightarrow> upper_limit s = Some u \<Longrightarrow>
   monitor_state s = (if alert_sent s then Alerting else Armed)"
  by (simp add: monitor_state_def)

lemma alerts_sent_evaluate_prices:
  "lower_limit s = Some l \<Longrightarrow> upper_limit s = Some u \<Longrightarrow>
   alerts_sent (evaluate_prices ps l u s) = alerts_sent s + armed_to_alerting ps l u s"
proof (induction ps arbitrary: s)
  case Nil
  show ?case by simp
next
  case (Cons p ps)
  let ?s1 = "evaluate p l u s"
  have lim: "lower_limit ?s1 = Some l" "upper_limit ?s1 = Some u"
    using Cons.prems by (simp_all add: evaluate_limits)
  have "alerts_sent (evaluate_prices ps l u ?s1) = alerts_sent ?s1 + armed_to_alerting ps l u ?s1"
    using lim by (rule Cons.IH)
  moreover have "alerts_sent ?s1 =
      alerts_sent s + (if monitor_state s = Armed \<and> monitor_state ?s1 = Alerting then 1 else 0)"
    using configured_state [OF Cons.prems] configured_state [OF lim]
    by (simp add: alerts_sent_evaluate)
  ultimately show ?case by simp
qed

lemma alert_flag_falls:
  "alert_sent s \<Longrightarrow> \<not> alert_sent (evaluate_prices ps l u s) \<Longrightarrow>
   \<exists>a r b. ps = a @ r # b \<and> alert_sent (evaluate_prices a l u s)
            \<and> \<not> alert_sent (evaluate r l u (evaluate_prices a l u s))"
proof (induction ps arbitrary: s)
  case Nil
  then show ?case by simp
next
  case (Cons p ps)
  show ?case
  proof (cases "alert_sent (evaluate p l u s)")
    case False
    have "p # ps = [] @ p # ps" by simp
    moreover have "alert_sent (evaluate_prices [] l u s)" using Cons.prems(1) by simp
    moreover have "\<not> alert_sent (evaluate p l u (evaluate_prices [] l u s))" using False by simp
    ultimately show ?thesis by blast
  next
    case True
    moreover have "\<not> alert_sent (evaluate_prices ps l u (evaluate p l u s))"
      using Cons.prems(2) by simp
    ultimately obtain a r b where "ps = a @ r # b"
      "alert_sent (evaluate_prices a l u (evaluate p l u s))"
      "\<not> alert_sent (evaluate r l u (evaluate_prices a l u (evaluate p l u s)))"
      using Cons.IH by blast
    then have "p # ps = (p # a) @ r # b \<and> alert_sent (evaluate_prices (p # a) l u s)
       \<and> \<not> alert_sent (evaluate r l u (evaluate_prices (p # a) l u s))" by simp
    then show ?thesis by blast
  qed
qed

text \<open>
  C1. Price checks under fixed configured limits: the number of alerts sent is the
  number of checks that take the monitor from Armed to Alerting; a check while Alerting
  with the price still outside the limits changes nothing and sends nothing; and between
  two checks that each take the monitor into Alerting there is a check that takes it
  back to Armed.
\<close>

theorem one_alert_per_breach:
  fixes s :: "'f::linorder state"
  assumes "lower_limit s = Some lower" and "upper_limit s = Some upper"
  shows "alerts_sent (evaluate_prices prices lower upper s)
           = alerts_sent s + armed_to_alerting prices lower upper s
       \<and> (monitor_state s = Alerting \<and> (price < lower \<or> price > upper)
            \<longrightarrow> evaluate price lower upper s = s)
       \<and> (monitor_state s = Armed \<and> monitor_state (evaluate p lower upper s) = Alerting
          \<and> monitor_state (evaluate_prices (p # mid) lower upper s) = Armed
          \<and> monitor_state (evaluate q lower upper (evaluate_prices (p # mid) lower upper s)) = Alerting
            \<longrightarrow> (\<exists>a r b. mid = a @ r # b
                  \<and> monitor_state (evaluate_prices (p # a) lower upper s) = Alerting
                  \<and> monitor_state (evaluate r lower upper (evaluate_prices (p # a) lower upper s)) = Armed))"
proof (intro conjI impI)
  show "alerts_sent (evaluate_prices prices lower upper s)
           = alerts_sent s + armed_to_alerting prices lower upper s"
    using assms by (rule alerts_sent_evaluate_prices)
next
  assume "monitor_state s = Alerting \<and> (price < lower \<or> price > upper)"
  then show "evaluate price lower upper s = s"
    using assms by (auto simp: evaluate_def monitor_state_def split: if_splits)
next
  assume a: "monitor_state s = Armed \<and> monitor_state (evaluate p lower upper s) = Alerting
          \<and> monitor_state (evaluate_prices (p # mid) lower upper s) = Armed
          \<and> monitor_state (evaluate q lower upper (evaluate_prices (p # mid) lower upper s)) = Alerting"
  let ?s1 = "evaluate p lower upper s"
  have st: "\<And>t. lower_limit t = Some lower \<Longrightarrow> upper_limit t = Some upper \<Longrightarrow>
      (monitor_state t = Alerting) = alert_sent t \<and> (monitor_state t = Armed) = (\<not> alert_sent t)"
    by (simp add: monitor_state_def)
  have lim1: "lower_limit ?s1 = Some lower" "upper_limit ?s1 = Some upper"
    using assms by (simp_all add: evaluate_limits)
  have limp: "\<And>xs. lower_limit (evaluate_prices xs lower upper ?s1) = Some lower"
             "\<And>xs. upper_limit (evaluate_prices xs lower upper ?s1) = Some upper"
    using lim1 by (simp_all add: evaluate_prices_limits)
  have "alert_sent ?s1" using a st [OF lim1] by simp
  moreover have "\<not> alert_sent (evaluate_prices mid lower upper ?s1)"
    using a st [OF limp] by simp
  ultimately obtain a' r b where m: "mid = a' @ r # b"
    and 1: "alert_sent (evaluate_prices a' lower upper ?s1)"
    and 2: "\<not> alert_sent (evaluate r lower upper (evaluate_prices a' lower upper ?s1))"
    using alert_flag_falls by blast
  let ?t = "evaluate_prices a' lower upper ?s1"
  have limr: "lower_limit (evaluate r lower upper ?t) = Some lower"
             "upper_limit (evaluate r lower upper ?t) = Some upper"
    using limp by (simp_all add: evaluate_limits)
  have "monitor_state (evaluate_prices (p # a') lower upper s) = Alerting"
    using 1 st [OF limp] by simp
  moreover have "monitor_state (evaluate r lower upper (evaluate_prices (p # a') lower upper s)) = Armed"
    using 2 st [OF limr] by simp
  ultimately show "\<exists>a r b. mid = a @ r # b
                  \<and> monitor_state (evaluate_prices (p # a) lower upper s) = Alerting
                  \<and> monitor_state (evaluate r lower upper (evaluate_prices (p # a) lower upper s)) = Armed"
    using m by blast
qed

theorem one_alert_per_breach_witness:
  "lower_limit armed_example = Some (1 / 2) \<and> upper_limit armed_example = Some 2
   \<and> alerts_sent (evaluate_prices [1, 2 / 5, 3 / 10, 3 / 5, 3] (1 / 2) 2 armed_example) = 2
   \<and> armed_to_alerting [1, 2 / 5, 3 / 10, 3 / 5, 3] (1 / 2) 2 armed_example = 2
   \<and> monitor_state (evaluate (2 / 5) (1 / 2) 2 armed_example) = Alerting
   \<and> evaluate (3 / 10) (1 / 2) 2 (evaluate (2 / 5) (1 / 2) 2 armed_example)
       = evaluate (2 / 5) (1 / 2) 2 armed_example
   \<and> monitor_state (evaluate_prices [2 / 5, 3 / 10, 3 / 5] (1 / 2) 2 armed_example) = Armed
   \<and> monitor_state (evaluate 3 (1 / 2) 2
        (evaluate_prices [2 / 5, 3 / 10, 3 / 5] (1 / 2) 2 armed_example)) = Alerting
   \<and> (\<exists>a r b. [3 / 10, 3 / 5] = a @ r # b
        \<and> monitor_state (evaluate_prices (2 / 5 # a) (1 / 2) 2 armed_example) = Alerting
        \<and> monitor_state (evaluate r (1 / 2) 2
             (evaluate_prices (2 / 5 # a) (1 / 2) 2 armed_example)) = Armed)"
  using one_alert_per_breach [where s = armed_example and lower = "1 / 2" and upper = 2
          and prices = "[1, 2 / 5, 3 / 10, 3 / 5, 3]" and p = "2 / 5" and mid = "[3 / 10, 3 / 5]"
          and q = 3 and price = 0]
        one_alert_per_breach [where s = "evaluate (2 / 5) (1 / 2) 2 armed_example"
          and lower = "1 / 2" and upper = 2 and prices = "[]" and price = "3 / 10"
          and p = 0 and mid = "[]" and q = 0]
  by (simp add: armed_example_def eval_defs)

section \<open>Updates without an identifier\<close>

text \<open>
  C10. An update without the key \<^verbatim>\<open>update_id\<close> is skipped whole: its message is not
  read (whatever the text, even one that would raise), no message is sent, the limits,
  the alert flag and \<^verbatim>\<open>last_update_id\<close> stay as they are.
\<close>

theorem update_without_id_skipped:
  "process_update rnd \<lparr>update_id = None, message = m\<rparr> s = Inr s"
  by (simp add: process_update_def)

section \<open>The comparison with the limits\<close>

text \<open>
  C6 (as the code has it). In state Armed a price check takes the monitor to Alerting
  and sends exactly one alert if and only if the price is outside the closed interval from
  the lower to the upper limit; a price inside leaves the state as it is. When the lower
  limit is not above the upper one, a price equal to either limit is inside: the state
  stays Armed and nothing is sent.
\<close>

theorem armed_evaluate:
  fixes s :: "'f::linorder state"
  assumes "monitor_state s = Armed" and "lower_limit s = Some lower" and "upper_limit s = Some upper"
  shows "((monitor_state (evaluate price lower upper s) = Alerting
           \<and> effects (evaluate price lower upper s) = effects s @ [SendText (Alert price)])
          \<longleftrightarrow> \<not> (lower \<le> price \<and> price \<le> upper))
       \<and> (lower \<le> price \<and> price \<le> upper \<longrightarrow> evaluate price lower upper s = s)
       \<and> (lower \<le> upper \<longrightarrow> evaluate lower lower upper s = s \<and> evaluate upper lower upper s = s)"
proof -
  have a: "\<not> alert_sent s" using assms by (simp add: monitor_state_def split: if_splits)
  then have same: "s\<lparr>alert_sent := False\<rparr> = s" by simp
  have "monitor_state (evaluate price lower upper s) = Alerting
         \<and> effects (evaluate price lower upper s) = effects s @ [SendText (Alert price)]"
    if "\<not> (lower \<le> price \<and> price \<le> upper)"
    using that a assms by (auto simp: eval_defs)
  moreover have "evaluate price lower upper s = s" if "lower \<le> price \<and> price \<le> upper" for price
    using that same by (auto simp: evaluate_def)
  moreover have "monitor_state s \<noteq> Alerting" using assms by simp
  ultimately show ?thesis by auto
qed

text \<open>The script accepts a lower limit above the upper one. Then a price equal to the
  lower limit is above the upper one, and the alert goes out.\<close>

theorem boundary_price_counterexample:
  "monitor_state inverted_example = Armed
   \<and> lower_limit inverted_example = Some 2 \<and> upper_limit inverted_example = Some 1
   \<and> monitor_state (evaluate 2 2 1 inverted_example) = Alerting
   \<and> effects (evaluate 2 2 1 inverted_example) = effects inverted_example @ [SendText (Alert 2)]"
  by (simp add: inverted_example_def eval_defs)

theorem armed_evaluate_witness:
  "monitor_state armed_example = Armed
   \<and> lower_limit armed_example = Some (1 / 2) \<and> upper_limit armed_example = Some 2
   \<and> monitor_state (evaluate (2 / 5) (1 / 2) 2 armed_example) = Alerting
   \<and> effects (evaluate (2 / 5) (1 / 2) 2 armed_example) = [SendText (Alert (2 / 5))]
   \<and> evaluate 1 (1 / 2) 2 armed_example = armed_example
   \<and> evaluate (1 / 2) (1 / 2) 2 armed_example = armed_example
   \<and> evaluate 2 (1 / 2) 2 armed_example = armed_example"
  using armed_evaluate [where s = armed_example and lower = "1 / 2" and upper = 2 and price = "2 / 5"]
        armed_evaluate [where s = armed_example and lower = "1 / 2" and upper = 2 and price = 1]
  by (simp add: armed_example_def eval_defs)

section \<open>Failures of the outside calls\<close>

text \<open>
  C7. A failed router call (or an empty answer) makes \<^verbatim>\<open>get_token_price\<close> return
  \<^verbatim>\<open>None\<close>; the price check then leaves the state as it is but for the record of the call.
  A failed poll makes \<^verbatim>\<open>get_telegram_updates\<close> return the empty list, and the turn goes
  on as with an empty answer. A turn in which both fail ends normally, with the limits,
  the alert flag and \<^verbatim>\<open>last_update_id\<close> unchanged.
\<close>

theorem failures_absorbed:
  "fst (get_token_price rnd CallFailed s) = None
   \<and> fst (get_token_price rnd (AmountsOut []) s) = None
   \<and> (check_price rnd CallFailed s = s
        \<or> check_price rnd CallFailed s = s\<lparr>effects := effects s @ [GetAmountsOut]\<rparr>)
   \<and> fst (get_telegram_updates offset RequestException s) = []
   \<and> iteration rnd (RequestException, q) s = iteration rnd (JsonData (Some []), q) s
   \<and> iteration rnd (RequestException, q) s
       = Inr (check_price rnd q (s\<lparr>effects := effects s @ [GetUpdates (last_update_id s)]\<rparr>))
   \<and> (\<exists>s'. iteration rnd (RequestException, CallFailed) s = Inr s'
          \<and> lower_limit s' = lower_limit s \<and> upper_limit s' = upper_limit s
          \<and> alert_sent s' = alert_sent s \<and> last_update_id s' = last_update_id s)"
  by (auto simp: get_token_price_def check_price_def get_telegram_updates_def iteration_def Let_def
        split: option.splits)

section \<open>Before the first command\<close>

lemma process_update_unconfigured:
  assumes "process_update rnd upd s = Inr s'" and "monitor_state s' = Unconfigured"
  shows "monitor_state s = Unconfigured \<and> price_effects s' = price_effects s"
  using process_update_cases [OF assms(1)] assms(2)
  by (auto simp: monitor_state_def price_effects_def split: if_splits)

lemma process_updates_unconfigured:
  "process_updates rnd upds s = Inr s' \<Longrightarrow> monitor_state s' = Unconfigured \<Longrightarrow>
   monitor_state s = Unconfigured \<and> price_effects s' = price_effects s"
proof (induction upds arbitrary: s)
  case Nil
  then show ?case by simp
next
  case (Cons upd upds)
  from Cons.prems(1) obtain s1 where 1: "process_update rnd upd s = Inr s1"
    and 2: "process_updates rnd upds s1 = Inr s'"
    by (auto split: sum.splits)
  from Cons.IH [OF 2 Cons.prems(2)]
  have "monitor_state s1 = Unconfigured" "price_effects s' = price_effects s1" by simp_all
  with process_update_unconfigured [OF 1] show ?case by simp
qed

lemma check_price_unconfigured:
  "monitor_state s = Unconfigured \<Longrightarrow> check_price rnd q s = s"
  by (auto simp: monitor_state_def check_price_def split: if_splits option.splits)

lemma monitor_state_check_price:
  "(monitor_state (check_price rnd q s) = Unconfigured) = (monitor_state s = Unconfigured)"
  using check_price_limits [of rnd q s] by (simp add: monitor_state_def)

lemma get_telegram_updates_state:
  "snd (get_telegram_updates off p s) = s\<lparr>effects := effects s @ [GetUpdates off]\<rparr>"
  by (simp add: get_telegram_updates_def Let_def split: poll_reply.splits option.splits)

lemma iteration_unconfigured:
  assumes "iteration rnd replies s = Inr s'" and "monitor_state s' = Unconfigured"
  shows "monitor_state s = Unconfigured \<and> price_effects s' = price_effects s"
proof -
  let ?s0 = "s\<lparr>effects := effects s @ [GetUpdates (last_update_id s)]\<rparr>"
  have "snd (get_telegram_updates (last_update_id s) (fst replies) s) = ?s0"
    by (rule get_telegram_updates_state)
  then obtain upds where g: "get_telegram_updates (last_update_id s) (fst replies) s = (upds, ?s0)"
    by (cases "get_telegram_updates (last_update_id s) (fst replies) s") simp
  with assms(1) obtain s1 where p: "process_updates rnd upds ?s0 = Inr s1"
    and s': "s' = check_price rnd (snd replies) s1"
    by (auto simp: iteration_def split: sum.splits)
  from s' assms(2) have u1: "monitor_state s1 = Unconfigured"
    by (simp add: monitor_state_check_price)
  with s' have "s' = s1" by (simp add: check_price_unconfigured)
  moreover from process_updates_unconfigured [OF p u1]
  have "monitor_state ?s0 = Unconfigured" "price_effects s1 = price_effects ?s0" by simp_all
  moreover have "monitor_state ?s0 = monitor_state s" by (simp add: monitor_state_def)
  moreover have "price_effects ?s0 = price_effects s" by (simp add: price_effects_def)
  ultimately show ?thesis by simp
qed

lemma run_unconfigured:
  "run rnd replies s = Inr s' \<Longrightarrow> monitor_state s' = Unconfigured \<Longrightarrow>
   monitor_state s = Unconfigured \<and> price_effects s' = price_effects s"
proof (induction replies arbitrary: s)
  case Nil
  then show ?case by simp
next
  case (Cons r replies)
  from Cons.prems(1) obtain s1 where 1: "iteration rnd r s = Inr s1"
    and 2: "run rnd replies s1 = Inr s'"
    by (auto split: sum.splits)
  from Cons.IH [OF 2 Cons.prems(2)]
  have "monitor_state s1 = Unconfigured" "price_effects s' = price_effects s1" by simp_all
  with iteration_unconfigured [OF 1] show ?case by simp
qed

lemma alerts_sent_price_effects: "price_effects s = [] \<Longrightarrow> alerts_sent s = 0"
  by (auto simp: price_effects_def alerts_sent_def filter_empty_conv
        split: effect.splits outbound.splits)

text \<open>
  C8. If after any number of turns the monitor is still Unconfigured, then no router
  call has been made and no alert has been sent since the start, and the price check of
  the state reached does nothing, whatever the router would answer.
\<close>

theorem unconfigured_never_alerts:
  assumes "run rnd replies main_start = Inr (s :: 'f::ord state)"
    and "monitor_state s = Unconfigured"
  shows "price_effects s = [] \<and> alerts_sent s = 0 \<and> check_price rnd q s = s"
proof -
  have "price_effects s = price_effects (main_start :: 'f state)"
    using run_unconfigured [OF assms] by simp
  also have "\<dots> = []" by (simp add: price_effects_def main_start_def send_telegram_text_def)
  finally have "price_effects s = []" .
  then show ?thesis
    using assms(2) by (simp add: alerts_sent_price_effects check_price_unconfigured)
qed

theorem unconfigured_never_alerts_witness:
  "run (\<lambda>q::rat. q)
       [(JsonData (Some [scenario_chatter]), AmountsOut [1, 4 * 10 ^ 17]),
        (RequestException, AmountsOut [1, 10 ^ 19])] main_start
     = Inr \<lparr>lower_limit = None, upper_limit = None, alert_sent = False, last_update_id = Some 7,
            effects = [SendText StartMessage, GetUpdates None, GetUpdates (Some 7)]\<rparr>
   \<and> monitor_state \<lparr>lower_limit = None :: rat option, upper_limit = None, alert_sent = False,
         last_update_id = Some 7,
         effects = [SendText StartMessage, GetUpdates None, GetUpdates (Some 7)]\<rparr> = Unconfigured
   \<and> price_effects \<lparr>lower_limit = None :: rat option, upper_limit = None, alert_sent = False,
         last_update_id = Some 7,
         effects = [SendText StartMessage, GetUpdates None, GetUpdates (Some 7)]\<rparr> = []
   \<and> alerts_sent \<lparr>lower_limit = None :: rat option, upper_limit = None, alert_sent = False,
         last_update_id = Some 7,
         effects = [SendText StartMessage, GetUpdates None, GetUpdates (Some 7)]\<rparr> = 0
   \<and> check_price (\<lambda>q::rat. q) (AmountsOut [1, 10 ^ 19])
         \<lparr>lower_limit = None, upper_limit = None, alert_sent = False, last_update_id = Some 7,
          effects = [SendText StartMessage, GetUpdates None, GetUpdates (Some 7)]\<rparr>
       = \<lparr>lower_limit = None, upper_limit = None, alert_sent = False, last_update_id = Some 7,
          effects = [SendText StartMessage, GetUpdates None, GetUpdates (Some 7)]\<rparr>"
proof -
  have r: "run (\<lambda>q::rat. q)
       [(JsonData (Some [scenario_chatter]), AmountsOut [1, 4 * 10 ^ 17]),
        (RequestException, AmountsOut [1, 10 ^ 19])] main_start
     = Inr \<lparr>lower_limit = None, upper_limit = None, alert_sent = False, last_update_id = Some 7,
            effects = [SendText StartMessage, GetUpdates None, GetUpdates (Some 7)]\<rparr>"
    by (simp add: scenario_chatter_def loop_defs text_defs)
  have u: "monitor_state \<lparr>lower_limit = None :: rat option, upper_limit = None, alert_sent = False,
         last_update_id = Some 7,
         effects = [SendText StartMessage, GetUpdates None, GetUpdates (Some 7)]\<rparr> = Unconfigured"
    by (simp add: monitor_state_def)
  from unconfigured_never_alerts [OF r u, of "AmountsOut [1, 10 ^ 19]"] r u
  show ?thesis by simp
qed

section \<open>An accepted command\<close>

lemma digit_or_dot_not_space: "digit_or_dot c \<Longrightarrow> \<not> is_space c"
  by (auto simp: digit_or_dot_def is_digit_def is_space_def Let_def)

lemma space_not_digit_or_dot: "\<not> digit_or_dot (CHR '' '')" "is_space (CHR '' '')"
  by (simp_all add: digit_or_dot_def is_digit_def is_space_def)

lemma is_digit_digit_or_dot: "is_digit c \<Longrightarrow> digit_or_dot c"
  by (simp add: digit_or_dot_def)

lemma float_of_capture_chars:
  assumes "float_of_capture g = Inr v"
  shows "g \<noteq> [] \<and> list_all digit_or_dot g"
proof -
  let ?ip = "takeWhile is_digit g" and ?rest = "dropWhile is_digit g"
  have g: "g = ?ip @ ?rest" by simp
  have ip: "list_all digit_or_dot ?ip"
    by (auto simp: list_all_iff dest: set_takeWhileD is_digit_digit_or_dot)
  show ?thesis
  proof (cases ?rest)
    case Nil
    with assms have "?ip \<noteq> []" by (auto simp: float_of_capture_def Let_def split: if_splits)
    moreover from Nil have "g = ?ip" using g by (metis append_Nil2)
    ultimately show ?thesis using ip by auto
  next
    case (Cons c fp)
    with assms have "c = CHR ''.''" "list_all is_digit fp"
      by (auto simp: float_of_capture_def Let_def split: if_splits)
    then have "list_all digit_or_dot (c # fp)"
      by (auto simp: list_all_iff digit_or_dot_def)
    moreover have "g = ?ip @ c # fp" using g Cons by simp
    ultimately have "list_all digit_or_dot g" using ip by (metis list_all_append)
    moreover have "g \<noteq> []" using \<open>g = ?ip @ c # fp\<close> by auto
    ultimately show ?thesis by simp
  qed
qed

lemma strip_command:
  assumes "U \<noteq> []" and "list_all digit_or_dot U"
  shows "strip (''monitor-mps '' @ L @ '' '' @ U) = ''monitor-mps '' @ L @ '' '' @ U"
proof -
  have "last U \<in> set U" using assms(1) by simp
  then have "digit_or_dot (last U)" using assms(2) by (simp add: list_all_iff)
  then have "\<not> is_space (last U)" by (rule digit_or_dot_not_space)
  moreover obtain x xs where r: "rev U = x # xs"
    using assms(1) by (cases "rev U") auto
  moreover have "last U = x" using r by (metis last_rev list.sel(1) rev_rev_ident)
  ultimately have "dropWhile is_space (rev U @ ys) = rev U @ ys" for ys
    by simp
  then show ?thesis by (simp add: strip_def is_space_def)
qed

lemma re_match_command:
  assumes "L \<noteq> []" and "list_all digit_or_dot L" and "U \<noteq> []" and "list_all digit_or_dot U"
  shows "re_match (''monitor-mps '' @ L @ '' '' @ U) = Some (L, U)"
proof -
  have L: "\<And>x. x \<in> set L \<Longrightarrow> digit_or_dot x" and U: "\<And>x. x \<in> set U \<Longrightarrow> digit_or_dot x"
    using assms by (auto simp: list_all_iff)
  have "hd L \<in> set L" and "hd U \<in> set U" using assms(1,3) by simp_all
  then have "digit_or_dot (hd L)" and "digit_or_dot (hd U)" using L U by blast+
  then have hL: "\<not> is_space (hd L)" and hU: "\<not> is_space (hd U)"
    by (simp_all add: digit_or_dot_not_space)
  have r0: "strip_prefix ''monitor-mps'' (''monitor-mps '' @ L @ '' '' @ U) = Some (CHR '' '' # L @ CHR '' '' # U)"
    by simp
  have t1: "takeWhile is_space (CHR '' '' # L @ CHR '' '' # U) = [CHR '' '']"
    and d1: "dropWhile is_space (CHR '' '' # L @ CHR '' '' # U) = L @ CHR '' '' # U"
    using assms(1) hL by (cases L; simp add: space_not_digit_or_dot)+
  have t2: "takeWhile digit_or_dot (L @ CHR '' '' # U) = L"
    and d2: "dropWhile digit_or_dot (L @ CHR '' '' # U) = CHR '' '' # U"
    using L by (simp_all add: takeWhile_append2 dropWhile_append2 space_not_digit_or_dot)
  have t3: "takeWhile is_space (CHR '' '' # U) = [CHR '' '']"
    and d3: "dropWhile is_space (CHR '' '' # U) = U"
    using assms(3) hU by (cases U; simp add: space_not_digit_or_dot)+
  have t4: "takeWhile digit_or_dot U = U" and d4: "dropWhile digit_or_dot U = []"
    using U by simp_all
  show ?thesis
    by (simp only: re_match_def r0 option.case Let_def t1 d1 t2 d2 t3 d3 t4 d4)
       (simp add: assms(1,3))
qed

text \<open>
  C3. For a command text \<^verbatim>\<open>monitor-mps L U\<close> whose two numbers \<^verbatim>\<open>float\<close> can read, and an
  update that carries an identifier, whatever the state before: the limits become the
  floats of L and U, the alert flag is cleared, the monitor is Armed, and the confirmation
  with these two floats is the one message sent.
\<close>

theorem command_accepted:
  assumes "float_of_capture L = Inr l" and "float_of_capture U = Inr u"
  shows "process_update rnd
           \<lparr>update_id = Some i, message = Some \<lparr>msg_text = Some (''monitor-mps '' @ L @ '' '' @ U)\<rparr>\<rparr> s
         = Inr (s\<lparr>lower_limit := Some (rnd l), upper_limit := Some (rnd u), alert_sent := False,
                  last_update_id := Some (i + 1),
                  effects := effects s @ [SendText (LimitsUpdated (rnd l) (rnd u))]\<rparr>)
       \<and> monitor_state (s\<lparr>lower_limit := Some (rnd l), upper_limit := Some (rnd u),
                  alert_sent := False, last_update_id := Some (i + 1),
                  effects := effects s @ [SendText (LimitsUpdated (rnd l) (rnd u))]\<rparr>) = Armed"
proof -
  from assms have c: "L \<noteq> []" "list_all digit_or_dot L" "U \<noteq> []" "list_all digit_or_dot U"
    by (simp_all add: float_of_capture_chars)
  have "re_match (strip (''monitor-mps '' @ L @ '' '' @ U)) = Some (L, U)"
    using strip_command [OF c(3,4), of L] re_match_command [OF c] by simp
  then show ?thesis
    using assms by (simp add: process_update_def apply_message_def send_telegram_text_def
          monitor_state_def Let_def)
qed

theorem command_accepted_witness:
  "float_of_capture ''0.5'' = Inr (1 / 2) \<and> float_of_capture ''2.0'' = Inr 2
   \<and> monitor_state alerting_example = Alerting
   \<and> process_update (\<lambda>q::rat. q) scenario_command alerting_example
     = Inr \<lparr>lower_limit = Some (1 / 2), upper_limit = Some 2, alert_sent = False,
            last_update_id = Some 6,
            effects = [SendText (Alert (2 / 5)), SendText (LimitsUpdated (1 / 2) 2)]\<rparr>
   \<and> monitor_state \<lparr>lower_limit = Some (1 / 2 :: rat), upper_limit = Some 2, alert_sent = False,
            last_update_id = Some 6,
            effects = [SendText (Alert (2 / 5)), SendText (LimitsUpdated (1 / 2) 2)]\<rparr> = Armed"
proof -
  have l: "float_of_capture ''0.5'' = Inr (1 / 2)" and u: "float_of_capture ''2.0'' = Inr 2"
    by (simp_all add: text_defs)
  from command_accepted [OF l u, of "\<lambda>q. q" 5 alerting_example] l u
  show ?thesis by (simp add: scenario_command_def alerting_example_def monitor_state_def)
qed

section \<open>The cursor\<close>

lemma process_update_cursor:
  "process_update rnd upd s = Inr s' \<Longrightarrow>
   last_update_id s' = (case update_id upd of None \<Rightarrow> last_update_id s | Some c \<Rightarrow> Some (c + 1))"
  by (auto simp: process_update_def split: option.splits sum.splits)

lemma cursor_after_batch:
  "process_updates rnd batch s = Inr s' \<Longrightarrow>
   last_update_id s' =
     (if batch_ids batch = [] then last_update_id s else Some (last (batch_ids batch) + 1))"
proof (induction batch arbitrary: s)
  case Nil
  then show ?case by (simp add: batch_ids_def)
next
  case (Cons upd batch)
  from Cons.prems obtain s1 where 1: "process_update rnd upd s = Inr s1"
    and 2: "process_updates rnd batch s1 = Inr s'"
    by (auto split: sum.splits)
  show ?case
    using Cons.IH [OF 2] process_update_cursor [OF 1]
    by (auto simp: batch_ids_def map_filter_simps split: option.splits)
qed

lemma check_price_cursor: "last_update_id (check_price rnd q s) = last_update_id s"
  by (auto simp: check_price_def get_token_price_def evaluate_def send_telegram_alert_def
        send_telegram_text_def Let_def split: option.splits quote_reply.splits list.splits)

lemma iteration_cursor:
  assumes "iteration rnd replies s = Inr s'"
  shows "last_update_id s' =
     (if batch_ids (fst (get_telegram_updates (last_update_id s) (fst replies) s)) = []
      then last_update_id s
      else Some (last (batch_ids (fst (get_telegram_updates (last_update_id s) (fst replies) s))) + 1))"
proof -
  let ?g = "get_telegram_updates (last_update_id s) (fst replies) s"
  from assms obtain s1 where p: "process_updates rnd (fst ?g) (snd ?g) = Inr s1"
    and s': "s' = check_price rnd (snd replies) s1"
    by (auto simp: iteration_def split: sum.splits prod.splits)
  have "last_update_id (snd ?g) = last_update_id s" by (simp add: get_telegram_updates_state)
  with cursor_after_batch [OF p] s' show ?thesis by (simp add: check_price_cursor)
qed

lemma ascending_below_last:
  "sorted_wrt (<) (xs :: int list) \<Longrightarrow> x \<in> set xs \<Longrightarrow> x \<le> last xs"
proof (induction xs)
  case Nil
  then show ?case by simp
next
  case (Cons a xs)
  show ?case
  proof (cases "xs = []")
    case True
    with Cons.prems show ?thesis by simp
  next
    case False
    then have l: "last xs \<in> set xs" by simp
    from Cons.prems(1) have lt: "\<forall>y \<in> set xs. a < y" and s: "sorted_wrt (<) xs" by simp_all
    from Cons.prems(2) have "x = a \<or> x \<in> set xs" by simp
    then have "x \<le> last xs"
    proof
      assume "x = a"
      with lt l show ?thesis by (simp add: less_imp_le)
    next
      assume "x \<in> set xs"
      with s show ?thesis by (rule Cons.IH)
    qed
    with False show ?thesis by simp
  qed
qed

lemma iteration_cursor_bounds:
  assumes it: "iteration rnd replies s = Inr s'"
    and h: "honours_offset (last_update_id s)
              (fst (get_telegram_updates (last_update_id s) (fst replies) s))"
  shows "last_update_id s \<le> last_update_id s'"
    and "\<And>i. i \<in> set (batch_ids (fst (get_telegram_updates (last_update_id s) (fst replies) s)))
           \<Longrightarrow> last_update_id s \<le> Some i \<and> Some (i + 1) \<le> last_update_id s'"
proof -
  let ?ids = "batch_ids (fst (get_telegram_updates (last_update_id s) (fst replies) s))"
  note c = iteration_cursor [OF it]
  from h have asc: "sorted_wrt (<) ?ids" and ge: "\<And>i. i \<in> set ?ids \<Longrightarrow> last_update_id s \<le> Some i"
    by (auto simp: honours_offset_def list_all_iff)
  show "last_update_id s \<le> last_update_id s'"
  proof (cases "?ids = []")
    case True
    with c show ?thesis by simp
  next
    case False
    then have "last ?ids \<in> set ?ids" by simp
    then have "last_update_id s \<le> Some (last ?ids)" by (rule ge)
    also have "Some (last ?ids) \<le> Some (last ?ids + 1)" by simp
    finally show ?thesis using c False by simp
  qed
  fix i assume i: "i \<in> set ?ids"
  then have "?ids \<noteq> []" by auto
  with c have "last_update_id s' = Some (last ?ids + 1)" by simp
  moreover have "i \<le> last ?ids" using asc i by (rule ascending_below_last)
  ultimately show "last_update_id s \<le> Some i \<and> Some (i + 1) \<le> last_update_id s'"
    using ge [OF i] by simp
qed

lemma run_cursor_bounds:
  "transport_honest rnd replies s \<Longrightarrow> run rnd replies s = Inr s' \<Longrightarrow>
   last_update_id s \<le> last_update_id s'
   \<and> sorted_wrt (<) (processed_ids rnd replies s)
   \<and> (\<forall>i \<in> set (processed_ids rnd replies s).
         last_update_id s \<le> Some i \<and> Some (i + 1) \<le> last_update_id s')"
proof (induction replies arbitrary: s)
  case Nil
  then show ?case by simp
next
  case (Cons r rest)
  let ?ids = "batch_ids (fst (get_telegram_updates (last_update_id s) (fst r) s))"
  from Cons.prems(2) obtain s1 where it: "iteration rnd r s = Inr s1"
    and rn: "run rnd rest s1 = Inr s'"
    by (auto split: sum.splits)
  from Cons.prems(1) it have h: "honours_offset (last_update_id s)
              (fst (get_telegram_updates (last_update_id s) (fst r) s))"
    and th: "transport_honest rnd rest s1" by simp_all
  note b1 = iteration_cursor_bounds(1) [OF it h]
  note b2 = iteration_cursor_bounds(2) [OF it h]
  from Cons.IH [OF th rn] have m: "last_update_id s1 \<le> last_update_id s'"
    and srt: "sorted_wrt (<) (processed_ids rnd rest s1)"
    and bnd: "\<And>j. j \<in> set (processed_ids rnd rest s1) \<Longrightarrow>
          last_update_id s1 \<le> Some j \<and> Some (j + 1) \<le> last_update_id s'"
    by auto
  have p: "processed_ids rnd (r # rest) s = ?ids @ processed_ids rnd rest s1"
    using it by simp
  have asc: "sorted_wrt (<) ?ids" using h by (simp add: honours_offset_def)
  have cross: "i < j" if "i \<in> set ?ids" "j \<in> set (processed_ids rnd rest s1)" for i j
  proof -
    have "Some (i + 1) \<le> last_update_id s1" using b2 [OF that(1)] by simp
    also have "\<dots> \<le> Some j" using bnd [OF that(2)] by simp
    finally show ?thesis by simp
  qed
  have 1: "last_update_id s \<le> last_update_id s'" using b1 m by (rule order_trans)
  have 2: "sorted_wrt (<) (processed_ids rnd (r # rest) s)"
    unfolding p using asc srt cross by (simp add: sorted_wrt_append)
  have 3: "last_update_id s \<le> Some i \<and> Some (i + 1) \<le> last_update_id s'"
    if "i \<in> set (processed_ids rnd (r # rest) s)" for i
  proof -
    from that have "i \<in> set (?ids @ processed_ids rnd rest s1)" by (simp only: p)
    then have "i \<in> set ?ids \<or> i \<in> set (processed_ids rnd rest s1)" by simp
    then show ?thesis
    proof
      assume "i \<in> set ?ids"
      from b2 [OF this] m show ?thesis by (auto intro: order_trans)
    next
      assume "i \<in> set (processed_ids rnd rest s1)"
      from bnd [OF this] b1 show ?thesis by (auto intro: order_trans)
    qed
  qed
  from 1 2 3 show ?case by blast
qed

text \<open>
  C5 (as the code has it). The script takes every identifier it is given, so the cursor
  is only as monotone as the transport is honest. When every poll of a run is answered
  with strictly ascending identifiers none of which is below the offset of that poll, and
  the run goes through, then the cursor at the end is not below the cursor at the start,
  every identifier processed is at or above the cursor of the start and below the cursor
  of the end, and no identifier is processed twice.
\<close>

theorem cursor_never_goes_back:
  assumes "transport_honest rnd replies s" and "run rnd replies s = Inr s'"
  shows "last_update_id s \<le> last_update_id s'
       \<and> distinct (processed_ids rnd replies s)
       \<and> (\<forall>i \<in> set (processed_ids rnd replies s).
             last_update_id s \<le> Some i \<and> Some i < last_update_id s')"
proof -
  from run_cursor_bounds [OF assms]
  have 1: "last_update_id s \<le> last_update_id s'"
    and 2: "sorted_wrt (<) (processed_ids rnd replies s)"
    and 3: "\<And>i. i \<in> set (processed_ids rnd replies s) \<Longrightarrow>
         last_update_id s \<le> Some i \<and> Some (i + 1) \<le> last_update_id s'"
    by auto
  from 2 have "distinct (processed_ids rnd replies s)"
    by (simp add: strict_sorted_iff)
  moreover have "Some i < last_update_id s'" if "i \<in> set (processed_ids rnd replies s)" for i
  proof -
    have "Some i < Some (i + 1)" by simp
    also have "\<dots> \<le> last_update_id s'" using 3 [OF that] by simp
    finally show ?thesis .
  qed
  ultimately show ?thesis using 1 3 by blast
qed

text \<open>An answer that carries an identifier below the offset is processed all the same:
  with the cursor at 6, update 3 sets the limits and takes the cursor back to 4.\<close>

theorem stale_update_counterexample:
  "last_update_id armed_example = Some 6
   \<and> iteration (\<lambda>q::rat. q) (JsonData (Some [stale_update]), CallFailed) armed_example
     = Inr \<lparr>lower_limit = Some 1, upper_limit = Some 2, alert_sent = False,
            last_update_id = Some 4,
            effects = [GetUpdates (Some 6), SendText (LimitsUpdated 1 2), GetAmountsOut]\<rparr>"
  by (simp add: armed_example_def stale_update_def loop_defs text_defs)

theorem cursor_never_goes_back_witness:
  "transport_honest (\<lambda>q::rat. q)
     [(JsonData (Some [scenario_command, scenario_chatter]), AmountsOut [1, 4 * 10 ^ 17]),
      (RequestException, CallFailed)] main_start
   \<and> run (\<lambda>q::rat. q)
     [(JsonData (Some [scenario_command, scenario_chatter]), AmountsOut [1, 4 * 10 ^ 17]),
      (RequestException, CallFailed)] main_start
     = Inr \<lparr>lower_limit = Some (1 / 2), upper_limit = Some 2, alert_sent = True,
            last_update_id = Some 7,
            effects = [SendText StartMessage, GetUpdates None, SendText (LimitsUpdated (1 / 2) 2),
                       GetAmountsOut, SendText (Alert (2 / 5)), GetUpdates (Some 7),
                       GetAmountsOut]\<rparr>
   \<and> processed_ids (\<lambda>q::rat. q)
     [(JsonData (Some [scenario_command, scenario_chatter]), AmountsOut [1, 4 * 10 ^ 17]),
      (RequestException, CallFailed)] main_start = [5, 6]
   \<and> last_update_id (main_start :: rat state) \<le> Some 7
   \<and> distinct [5, 6 :: int]
   \<and> last_update_id (main_start :: rat state) \<le> Some 5 \<and> Some 5 < Some (7 :: int)
   \<and> last_update_id (main_start :: rat state) \<le> Some 6 \<and> Some 6 < Some (7 :: int)"
proof -
  let ?R = "[(JsonData (Some [scenario_command, scenario_chatter]), AmountsOut [1, 4 * 10 ^ 17]),
      (RequestException, CallFailed)]"
  let ?S = "\<lparr>lower_limit = Some (1 / 2 :: rat), upper_limit = Some 2, alert_sent = True,
            last_update_id = Some 7,
            effects = [SendText StartMessage, GetUpdates None, SendText (LimitsUpdated (1 / 2) 2),
                       GetAmountsOut, SendText (Alert (2 / 5)), GetUpdates (Some 7),
                       GetAmountsOut]\<rparr>"
  have r: "run (\<lambda>q::rat. q) ?R main_start = Inr ?S"
    by (simp add: scenario_command_def scenario_chatter_def loop_defs text_defs)
  have h: "transport_honest (\<lambda>q::rat. q) ?R main_start"
    by (simp add: scenario_command_def scenario_chatter_def honours_offset_def batch_ids_def
          map_filter_simps loop_defs text_defs)
  have p: "processed_ids (\<lambda>q::rat. q) ?R main_start = [5, 6]"
    by (simp add: scenario_command_def scenario_chatter_def batch_ids_def
          map_filter_simps loop_defs text_defs)
  from cursor_never_goes_back [OF h r, unfolded p] h r p show ?thesis
    by (simp add: main_start_def send_telegram_text_def)
qed

section \<open>A command with a number \<^verbatim>\<open>float\<close> cannot read\<close>

lemma unmatched_text_discarded:
  assumes "re_match (strip raw) = None"
  shows "process_update rnd \<lparr>update_id = Some i, message = Some \<lparr>msg_text = Some raw\<rparr>\<rparr> s
         = Inr (s\<lparr>last_update_id := Some (i + 1)\<rparr>)"
  using assms by (simp add: process_update_def apply_message_def)

lemma process_update_raises:
  "process_update rnd upd s = Inl e \<longleftrightarrow>
     update_id upd \<noteq> None
     \<and> (\<exists>m raw g1 g2. message upd = Some m \<and> msg_text m = Some raw
           \<and> re_match (strip raw) = Some (g1, g2)
           \<and> (float_of_capture g1 = Inl e
                \<or> (\<exists>v. float_of_capture g1 = Inr v) \<and> float_of_capture g2 = Inl e))"
  by (auto simp: process_update_def apply_message_def Let_def
        split: option.splits sum.splits prod.splits)

text \<open>
  C2 (where the code departs from it). The regex lets every run of digits and dots
  through as a number, and \<^verbatim>\<open>float\<close> is called with no handler around it. The text
  \<^verbatim>\<open>monitor-mps 1.2.3 4\<close> matches, \<^verbatim>\<open>float("1.2.3")\<close> raises \<^verbatim>\<open>ValueError\<close>, and the loop ends:
  the turn, and any run that contains it, is an error.
\<close>

theorem malformed_command_raises:
  "re_match (strip ''monitor-mps 1.2.3 4'') = Some (''1.2.3'', ''4'')
   \<and> float_of_capture ''1.2.3'' = Inl ValueError
   \<and> iteration (\<lambda>q::rat. q) (JsonData (Some [malformed_command]), CallFailed) main_start
       = Inl ValueError
   \<and> run (\<lambda>q::rat. q)
       [(JsonData (Some [malformed_command]), CallFailed),
        (JsonData (Some [scenario_command]), AmountsOut [1, 10 ^ 18])] main_start
       = Inl ValueError"
  by (simp add: malformed_command_def scenario_command_def loop_defs text_defs)

text \<open>
  C4 (where the code departs from it). A batch with the identifiers 5 and 6 leaves the
  cursor at 7 when its first text is a command \<^verbatim>\<open>float\<close> can read; when its first text is
  \<^verbatim>\<open>monitor-mps 1.2.3 4\<close> the same batch ends in \<^verbatim>\<open>ValueError\<close> and there is no cursor to poll
  with. Lemma \<open>cursor_after_batch\<close> above gives the cursor for every batch that is
  processed to its end.
\<close>

theorem malformed_command_blocks_cursor:
  "batch_ids [malformed_command, scenario_chatter] = [5, 6]
   \<and> process_updates (\<lambda>q::rat. q) [malformed_command, scenario_chatter] armed_example
       = Inl ValueError
   \<and> process_updates (\<lambda>q::rat. q) [scenario_command, scenario_chatter] armed_example
       = Inr (armed_example\<lparr>last_update_id := Some 7,
                effects := [SendText (LimitsUpdated (1 / 2) 2)]\<rparr>)"
  by (simp add: malformed_command_def scenario_command_def scenario_chatter_def armed_example_def
        batch_ids_def map_filter_simps loop_defs text_defs)

end
